theory Spec2Isabelle
  imports Main
begin

section \<open>The incremental search of jove.py\<close>

text \<open>
  A shallow embedding of class \<open>ISearchInfo\<close> of \<open>src/jove.py\<close> (lines 943 to 1266) and
  of its nested class \<open>StackItem\<close>. Buffer positions are Python integers (\<open>int\<close>).
  The editor (module \<open>sublime\<close>) is the host: of its state the model keeps the buffer
  text, the selection, the two highlight sets \<open>"find"\<close> and \<open>"selected"\<close>, the position
  last handed to the mark ring, and the input panel. Status texts and the viewport
  (\<open>set_status\<close>, \<open>ensure_visible\<close>) are left out: no method of \<open>ISearchInfo\<close> reads them.
\<close>

subsection \<open>Regions of the host\<close>

text \<open>
  \<open>sublime.Region(a, b)\<close>: two end points in either order; \<open>begin()\<close> is the smaller one
  and \<open>end()\<close> the larger one.
\<close>

datatype region = Region (region_a: int) (region_b: int)

definition region_begin :: "region \<Rightarrow> int" where
  "region_begin r = min (region_a r) (region_b r)"

definition region_end :: "region \<Rightarrow> int" where
  "region_end r = max (region_a r) (region_b r)"

subsection \<open>Python list objects\<close>

text \<open>
  \<open>StackItem.__init__\<close> keeps a reference to the list \<open>selected\<close> it is given and appends
  to it in place, and \<open>step\<close> deletes from a list in place. The lists of selected regions
  are therefore objects in a store: a reference is an address, \<open>cells\<close> gives the contents
  of every address and \<open>fresh\<close> is the next address not yet allocated.
\<close>

type_synonym ref = nat

record store =
  cells :: "ref \<Rightarrow> region list"
  fresh :: ref

text \<open>A list display such as \<open>[]\<close> allocates a new object.\<close>

definition new_list :: "store \<Rightarrow> region list \<Rightarrow> ref \<times> store" where
  "new_list st xs = (fresh st, st\<lparr>cells := (cells st)(fresh st := xs), fresh := Suc (fresh st)\<rparr>)"

text \<open>\<open>copy(xs)\<close>: a new object with the same elements.\<close>

definition copy_list :: "store \<Rightarrow> ref \<Rightarrow> ref \<times> store" where
  "copy_list st r = new_list st (cells st r)"

text \<open>\<open>xs.append(x)\<close>, in place.\<close>

definition list_append :: "store \<Rightarrow> ref \<Rightarrow> region \<Rightarrow> store" where
  "list_append st r x = st\<lparr>cells := (cells st)(r := cells st r @ [x])\<rparr>"

text \<open>\<open>del(xs[-1])\<close>, in place; the source guards it with \<open>len(xs) > 0\<close>.\<close>

definition list_del_last :: "store \<Rightarrow> ref \<Rightarrow> store" where
  "list_del_last st r = st\<lparr>cells := (cells st)(r := butlast (cells st r))\<rparr>"

subsection \<open>StackItem\<close>

text \<open>
  One state of the search. The field \<open>prev\<close> is the position in the session's chain of
  states (see \<open>prevs\<close> below); \<open>regions\<close> is never modified after construction, so it is a
  value; \<open>selected\<close> is a reference into the store.
\<close>

record StackItem =
  search :: string
  regions :: "region list"
  selected :: ref
  current_index :: int
  forward :: bool
  try_wrapped :: bool
  wrapped :: bool

datatype error = IndexError

text \<open>
  \<open>StackItem.__init__\<close> (lines 947 to 958). \<open>regions[current_index]\<close> with a non-negative
  index raises IndexError when the index is not below the length.
\<close>

definition StackItem_init ::
  "store \<Rightarrow> string \<Rightarrow> region list \<Rightarrow> ref \<Rightarrow> int \<Rightarrow> bool \<Rightarrow> bool \<Rightarrow> error + (store \<times> StackItem)" where
  "StackItem_init st q rs sel_ref idx fwd wr =
     (let self = \<lparr>search = q, regions = rs, selected = sel_ref, current_index = idx,
                   forward = fwd, try_wrapped = False, wrapped = wr\<rparr>
      in if idx \<ge> 0 \<and> rs \<noteq> [] then
           (if nat idx < length rs then Inr (list_append st sel_ref (rs ! nat idx), self)
            else Inl IndexError)
         else Inr (st, self))"

text \<open>\<open>StackItem.get_point\<close> (lines 960 to 964); \<open>None\<close> is Python's \<open>None\<close>.\<close>

definition get_point :: "StackItem \<Rightarrow> error + int option" where
  "get_point self =
     (if current_index self \<ge> 0 then
        (if nat (current_index self) < length (regions self) then
           (let r = regions self ! nat (current_index self)
            in Inr (Some (if forward self then region_begin r else region_end r)))
         else Inl IndexError)
      else Inr None)"

text \<open>
  The last four lines of \<open>StackItem.step\<close> (lines 989 to 992): copy the list of selected
  regions, drop its last element unless \<open>keep\<close>, and construct the new state with it.
  The result is the store, the receiver and the new state.
\<close>

definition step_new ::
  "store \<Rightarrow> StackItem \<Rightarrow> int \<Rightarrow> bool \<Rightarrow> bool \<Rightarrow> bool \<Rightarrow> error + (store \<times> StackItem \<times> StackItem option)" where
  "step_new st self idx fwd keep wr =
     (let (sel_ref, st1) = copy_list st (selected self);
          st2 = (if \<not> keep \<and> length (cells st1 sel_ref) > 0 then list_del_last st1 sel_ref else st1)
      in case StackItem_init st2 (search self) (regions self) sel_ref idx fwd wr of
           Inl e \<Rightarrow> Inl e
         | Inr (st3, new) \<Rightarrow> Inr (st3, self, Some new))"

text \<open>
  \<open>StackItem.step\<close> (lines 972 to 992). It may set or clear \<open>try_wrapped\<close> of the receiver
  in place, so the receiver is returned too; the third component is the returned state,
  \<open>None\<close> when the method returns \<open>None\<close>.
\<close>

definition step ::
  "store \<Rightarrow> StackItem \<Rightarrow> bool \<Rightarrow> bool \<Rightarrow> error + (store \<times> StackItem \<times> StackItem option)" where
  "step st self fwd keep =
     (let idx = current_index self; matches = int (length (regions self))
      in if regions self \<noteq> [] \<and> (idx < 0 \<or> (idx = 0 \<and> \<not> fwd) \<or> (idx = matches - 1 \<and> fwd)) then
           (if try_wrapped self \<or> regions self = [] then
              step_new st (self\<lparr>try_wrapped := False\<rparr>) (if fwd then 0 else matches - 1) fwd keep True
            else Inr (st, self\<lparr>try_wrapped := True\<rparr>, None))
         else if (fwd \<and> idx < matches - 1) \<or> (\<not> fwd \<and> idx > 0) then
           step_new st self (if fwd then idx + 1 else idx - 1) fwd keep (wrapped self)
         else Inr (st, self, None))"

subsection \<open>find_closest\<close>

text \<open>
  \<open>ISearchInfo.find_closest\<close> (lines 1249 to 1266). The two loops over
  \<open>enumerate(regions)\<close> are recursions that carry the index; the backward loop also
  carries \<open>len(regions)\<close> for the return after it.
\<close>

fun find_closest_forward :: "region list \<Rightarrow> int \<Rightarrow> int \<Rightarrow> int" where
  "find_closest_forward [] pos idx = - 1"
| "find_closest_forward (r # rs) pos idx =
     (if region_end r \<ge> pos then idx else find_closest_forward rs pos (idx + 1))"

fun find_closest_backward :: "region list \<Rightarrow> int \<Rightarrow> int \<Rightarrow> int \<Rightarrow> int" where
  "find_closest_backward [] pos idx n = n - 1"
| "find_closest_backward (r # rs) pos idx n =
     (if region_begin r > pos then idx - 1 else find_closest_backward rs pos (idx + 1) n)"

definition find_closest :: "region list \<Rightarrow> int \<Rightarrow> bool \<Rightarrow> int" where
  "find_closest rs pos fwd =
     (if length rs = 0 then - 1
      else if fwd then find_closest_forward rs pos 0
      else find_closest_backward rs pos 0 (int (length rs)))"

subsection \<open>The session\<close>

text \<open>
  An instance of \<open>ISearchInfo\<close>, with the part of the host it works on. \<open>current\<close> is
  \<open>self.current\<close> and \<open>prevs\<close> the chain \<open>current.prev\<close>, \<open>current.prev.prev\<close>, ... down to
  the root, whose \<open>prev\<close> is \<open>None\<close>. \<open>isearch_forward\<close> is the attribute \<open>self.forward\<close>.
  Of the view: \<open>buffer\<close> is its text, \<open>sel\<close> the regions of \<open>view.sel()\<close> in the order
  the code adds them, \<open>find_hl\<close> and \<open>selected_hl\<close> the region sets named \<open>"find"\<close> and
  \<open>"selected"\<close> (empty when erased), \<open>mark\<close> the position last given to the mark ring.
  \<open>panel_open\<close> and \<open>input_text\<close> are the input panel, \<open>last_search\<close> the class
  attribute \<open>ISearchInfo.last_search\<close>, and \<open>isearch_info\<close> says whether
  \<open>ViewState.isearch_info\<close> is this session.
\<close>

record ISearchInfo =
  heap :: store
  current :: StackItem
  prevs :: "StackItem list"
  point :: int
  in_changes :: nat
  isearch_forward :: bool
  is_active :: bool
  regex :: bool
  buffer :: string
  sel :: "region list"
  find_hl :: "region list"
  selected_hl :: "region list"
  mark :: "int option"
  panel_open :: bool
  input_text :: string
  last_search :: "string option"
  isearch_info :: bool

text \<open>
  \<open>not_in_error\<close> (lines 1106 to 1111): the loop walks the chain while the state has no
  selected region and a non-empty search string.
\<close>

fun not_in_error_from :: "store \<Rightarrow> StackItem list \<Rightarrow> StackItem option" where
  "not_in_error_from st [] = None"
| "not_in_error_from st (si # rest) =
     (if cells st (selected si) = [] \<and> search si \<noteq> [] then not_in_error_from st rest
      else Some si)"

definition not_in_error :: "ISearchInfo \<Rightarrow> StackItem option" where
  "not_in_error self = not_in_error_from (heap self) (current self # prevs self)"

text \<open>\<open>update\<close> (lines 1138 to 1161), without the status text.\<close>

definition update :: "ISearchInfo \<Rightarrow> ISearchInfo" where
  "update self =
     (case not_in_error self of
        None \<Rightarrow> self
      | Some si \<Rightarrow> self\<lparr>find_hl := regions si, selected_hl := cells (heap self) (selected si)\<rparr>)"

text \<open>
  \<open>CmdHelper.set_selection(a)\<close> with one argument (lines 390 to 395) clears the selection
  and adds \<open>sublime.Region(a, None)\<close>, the empty region at \<open>a\<close>.
  \<open>CmdHelper.set_mark(pos, and_selection=False)\<close> (lines 350 to 363) gives \<open>pos\<close> to the
  mark ring.
\<close>

definition set_selection :: "ISearchInfo \<Rightarrow> int \<Rightarrow> ISearchInfo" where
  "set_selection self p = self\<lparr>sel := [Region p p]\<rparr>"

definition set_mark :: "ISearchInfo \<Rightarrow> int \<Rightarrow> ISearchInfo" where
  "set_mark self pos = self\<lparr>mark := Some pos\<rparr>"

text \<open>\<open>finish\<close> (lines 1113 to 1136).\<close>

definition finish :: "bool \<Rightarrow> ISearchInfo \<Rightarrow> ISearchInfo" where
  "finish abort self =
     (let self1 = (if search (current self) \<noteq> []
                   then self\<lparr>last_search := Some (search (current self))\<rparr> else self);
          (self2, point_set) =
             (if \<not> abort then
                (let cleared = self1\<lparr>sel := []\<rparr>
                 in case not_in_error cleared of
                      None \<Rightarrow> (cleared, False)
                    | Some cur \<Rightarrow>
                        if cells (heap cleared) (selected cur) \<noteq> []
                        then (cleared\<lparr>sel := sel cleared @ cells (heap cleared) (selected cur)\<rparr>, True)
                        else (cleared, False))
              else (self1, False));
          self3 = (if \<not> point_set then set_selection self2 (point self2)
                   else set_mark self2 (point self2))
      in self3\<lparr>find_hl := [], selected_hl := []\<rparr>)"

text \<open>
  The callbacks of the input panel, \<open>on_done\<close> (lines 1016 to 1020) and \<open>on_cancel\<close>
  (lines 1022 to 1026).
\<close>

definition on_done :: "ISearchInfo \<Rightarrow> ISearchInfo" where
  "on_done self =
     (let self1 = self\<lparr>isearch_info := False\<rparr>
      in if is_active self1 then finish False self1 else self1)"

definition on_cancel :: "ISearchInfo \<Rightarrow> ISearchInfo" where
  "on_cancel self =
     (let self1 = self\<lparr>isearch_info := False\<rparr>
      in if is_active self1 then finish True self1 else self1)"

text \<open>
  The window command \<open>hide_panel\<close> closes the input panel. Which callback of the panel
  the host runs before the command returns is not fixed by the source (the comment in
  \<open>done\<close> expects \<open>on_done\<close>), so the host's reaction is a parameter.
\<close>

datatype panel_reaction = NoCallback | CallsOnDone | CallsOnCancel

definition hide_panel :: "panel_reaction \<Rightarrow> ISearchInfo \<Rightarrow> ISearchInfo" where
  "hide_panel reaction self =
     (let self1 = self\<lparr>panel_open := False\<rparr>
      in case reaction of
           NoCallback \<Rightarrow> self1
         | CallsOnDone \<Rightarrow> on_done self1
         | CallsOnCancel \<Rightarrow> on_cancel self1)"

text \<open>\<open>cancel\<close> (lines 1226 to 1228) and \<open>deactivate\<close> (lines 1087 to 1089).\<close>

definition cancel :: "panel_reaction \<Rightarrow> ISearchInfo \<Rightarrow> ISearchInfo" where
  "cancel reaction self = finish True (hide_panel reaction self)"

definition deactivate :: "ISearchInfo \<Rightarrow> ISearchInfo" where
  "deactivate self = finish False (self\<lparr>is_active := False\<rparr>)"

text \<open>\<open>push\<close> (lines 1071 to 1073).\<close>

definition push :: "ISearchInfo \<Rightarrow> StackItem \<Rightarrow> ISearchInfo" where
  "push self item = self\<lparr>prevs := current self # prevs self, current := item\<rparr>"

text \<open>
  \<open>set_text\<close> (lines 1099 to 1104). The three commands run in the input panel leave
  \<open>text\<close> in it; the panel's echo of the edit is a later \<open>on_change\<close> event.
\<close>

definition set_text :: "ISearchInfo \<Rightarrow> string \<Rightarrow> bool \<Rightarrow> ISearchInfo" where
  "set_text self txt is_pop =
     (let self1 = (if is_pop then self\<lparr>in_changes := in_changes self + 1\<rparr> else self)
      in self1\<lparr>input_text := txt\<rparr>)"

text \<open>\<open>pop\<close> (lines 1078 to 1085).\<close>

definition pop :: "ISearchInfo \<Rightarrow> ISearchInfo" where
  "pop self =
     (case prevs self of
        [] \<Rightarrow> self
      | p # ps \<Rightarrow>
          (let self1 = self\<lparr>current := p, prevs := ps\<rparr>;
               self2 = set_text self1 (search (current self1)) True;
               self3 = self2\<lparr>isearch_forward := forward (current self2)\<rparr>
           in update self3))"

text \<open>
  \<open>quit\<close> (lines 1230 to 1246). \<open>quit_back\<close> is its \<open>while\<close> loop, on the current state
  and its chain of predecessors.
\<close>

fun quit_back :: "StackItem \<Rightarrow> StackItem list \<Rightarrow> StackItem \<times> StackItem list" where
  "quit_back cur [] = (cur, [])"
| "quit_back cur (p # ps) = (if regions p = [] then quit_back p ps else (cur, p # ps))"

definition quit :: "panel_reaction \<Rightarrow> ISearchInfo \<Rightarrow> ISearchInfo" where
  "quit reaction self =
     (let (self1, close) =
            (if regions (current self) \<noteq> [] then (self, True)
             else (let (cur, ps) = quit_back (current self) (prevs self)
                   in (self\<lparr>current := cur, prevs := ps\<rparr>, ps = [])))
      in if close then cancel reaction self1 else pop self1)"

subsection \<open>Query changes\<close>

text \<open>
  \<open>re.search(r'[A-Z]', val) is not None\<close>: some character of \<open>val\<close> lies in the range
  from \<open>A\<close> (code 65) to \<open>Z\<close> (code 90).
\<close>

definition in_range_A_Z :: "char \<Rightarrow> bool" where
  "in_range_A_Z c = (65 \<le> (of_char c :: nat) \<and> (of_char c :: nat) \<le> 90)"

definition re_search_A_Z :: "string \<Rightarrow> bool" where
  "re_search_A_Z val = list_ex in_range_A_Z val"

text \<open>
  The flags of \<open>view.find_all\<close>: the bit mask is a set of flags, \<open>0\<close> the empty set and
  \<open>|=\<close> a union. \<open>find_flags\<close> is lines 1041 to 1043 of \<open>find\<close>.
\<close>

datatype flag = LITERAL | IGNORECASE

definition find_flags :: "bool \<Rightarrow> string \<Rightarrow> flag set" where
  "find_flags rx val =
     (let flags = (if rx then {} else {LITERAL})
      in if \<not> re_search_A_Z val then flags \<union> {IGNORECASE} else flags)"

text \<open>
  Lines 1050 to 1054 of \<open>find\<close>: the position the closest match is computed from.
  \<open>self.current\<close> is never \<open>None\<close>.
\<close>

definition find_point :: "ISearchInfo \<Rightarrow> error + int" where
  "find_point self =
     (case get_point (current self) of
        Inl e \<Rightarrow> Inl e
      | Inr None \<Rightarrow> Inr (point self)
      | Inr (Some p) \<Rightarrow> Inr p)"

text \<open>
  \<open>find\<close> (lines 1039 to 1062). \<open>view.find_all\<close> is the host's: it is the parameter
  \<open>find_all\<close>, from the buffer, the pattern and the flags to the regions found.
\<close>

definition find_op ::
  "(string \<Rightarrow> string \<Rightarrow> flag set \<Rightarrow> region list) \<Rightarrow> ISearchInfo \<Rightarrow> string \<Rightarrow> error + ISearchInfo" where
  "find_op find_all self val =
     (let flags = find_flags (regex self) val
      in if length val > 0 then
           (let rs = find_all (buffer self) val flags
            in case find_point self of
                 Inl e \<Rightarrow> Inl e
               | Inr p \<Rightarrow>
                   (let idx = find_closest rs p (isearch_forward self);
                        (sel_ref, st1) = new_list (heap self) []
                    in case StackItem_init st1 val rs sel_ref idx (isearch_forward self)
                              (wrapped (current self)) of
                         Inl e \<Rightarrow> Inl e
                       | Inr (st2, item) \<Rightarrow> Inr (update (push (self\<lparr>heap := st2\<rparr>) item))))
         else Inr (update self))"

text \<open>\<open>on_change\<close> (lines 1028 to 1037).\<close>

definition on_change ::
  "(string \<Rightarrow> string \<Rightarrow> flag set \<Rightarrow> region list) \<Rightarrow> ISearchInfo \<Rightarrow> string \<Rightarrow> error + ISearchInfo" where
  "on_change find_all self val =
     (if in_changes self > 0 then Inr (self\<lparr>in_changes := in_changes self - 1\<rparr>)
      else find_op find_all self val)"

text \<open>
  \<open>next\<close> (lines 1167 to 1179); \<open>fwd\<close> is the optional argument \<open>forward\<close>.
\<close>

definition next_op :: "ISearchInfo \<Rightarrow> bool \<Rightarrow> bool option \<Rightarrow> error + ISearchInfo" where
  "next_op self keep fwd =
     (if prevs self = [] then
        (case last_search self of
           None \<Rightarrow> Inr self
         | Some q \<Rightarrow> if q \<noteq> [] then Inr (set_text self q False) else Inr self)
      else
        (let dir = (case fwd of None \<Rightarrow> forward (current self) | Some f \<Rightarrow> f)
         in case step (heap self) (current self) dir keep of
              Inl e \<Rightarrow> Inl e
            | Inr (st, cur, None) \<Rightarrow> Inr (self\<lparr>heap := st, current := cur\<rparr>)
            | Inr (st, cur, Some new) \<Rightarrow> Inr (update (push (self\<lparr>heap := st, current := cur\<rparr>) new))))"

subsection \<open>Appending from the cursor\<close>

text \<open>
  \<open>view.substr(point)\<close>: the character at \<open>point\<close> as a string, empty outside the buffer.
  \<open>str_in x s\<close> is Python's \<open>x in s\<close> on strings (\<open>x\<close> occurs in \<open>s\<close> as a substring).
  A character is a code point below 256 (U+0000 to U+00FF); text with other code points
  is outside the model.
\<close>

definition substr :: "string \<Rightarrow> int \<Rightarrow> string" where
  "substr buf p = (if 0 \<le> p \<and> nat p < length buf then [buf ! nat p] else [])"

fun str_in :: "string \<Rightarrow> string \<Rightarrow> bool" where
  "str_in x [] = (x = [])"
| "str_in x (c # s) = (take (length x) (c # s) = x \<or> str_in x s)"

text \<open>
  The upper-case letters among these characters (Unicode's category Lu): \<open>A\<close> to \<open>Z\<close>,
  U+00C0 to U+00D6 and U+00D8 to U+00DE; U+00C9 is the letter E with an acute accent.
  \<open>str.lower()\<close> maps each of them to the character 32 code points above it, its
  lower-case letter, and leaves every other character of the model as it is.
\<close>

definition upper_case_letter :: "char \<Rightarrow> bool" where
  "upper_case_letter c =
     (let n = (of_char c :: nat)
      in (65 \<le> n \<and> n \<le> 90) \<or> (192 \<le> n \<and> n \<le> 214) \<or> (216 \<le> n \<and> n \<le> 222))"

definition lower :: "string \<Rightarrow> string" where
  "lower s = map (\<lambda>c. if upper_case_letter c then char_of ((of_char c :: nat) + 32) else c) s"

text \<open>\<open>CmdHelper.is_word_char\<close> (lines 476 to 482).\<close>

definition is_word_char :: "string \<Rightarrow> int \<Rightarrow> bool \<Rightarrow> string \<Rightarrow> bool" where
  "is_word_char buf pos fwd separators =
     (if \<not> fwd \<and> pos = 0 then False
      else (let pos1 = (if \<not> fwd then pos - 1 else pos);
                ch = substr buf pos1
            in \<not> (str_in ch [CHR '' '', CHR 0x09, CHR 0x0D, CHR 0x0A] \<or> str_in ch separators)))"

text \<open>The local function \<open>append_one\<close> (lines 1205 to 1208); \<open>CHR 0x5C\<close> is the backslash.\<close>

definition append_one :: "bool \<Rightarrow> string \<Rightarrow> string" where
  "append_one rx ch = (if rx \<and> str_in ch ''{}()[].*+'' then CHR 0x5C # ch else ch)"

text \<open>
  The \<open>while\<close> loop of \<open>append_from_cursor\<close> (lines 1217 to 1223), with the locals it
  reads: \<open>separators\<close>, \<open>case_sensitive\<close> and \<open>limit\<close>, and \<open>search\<close> and \<open>point\<close>, which it
  updates.
\<close>

function append_loop ::
  "(string \<Rightarrow> string \<Rightarrow> flag set \<Rightarrow> region list) \<Rightarrow> string \<Rightarrow> bool \<Rightarrow> int \<Rightarrow>
     ISearchInfo \<Rightarrow> string \<Rightarrow> int \<Rightarrow> error + ISearchInfo" where
  "append_loop find_all separators case_sensitive limit self q p =
     (if p < limit \<and> is_word_char (buffer self) p True separators then
        (let ch = substr (buffer self) p;
             ch1 = (if \<not> case_sensitive then lower ch else ch);
             q1 = q @ append_one (regex self) ch1
         in case on_change find_all self q1 of
              Inl e \<Rightarrow> Inl e
            | Inr self1 \<Rightarrow> append_loop find_all separators case_sensitive limit self1 q1 (p + 1))
      else Inr self)"
  by pat_completeness auto
termination
  by (relation "measure (\<lambda>(find_all, separators, case_sensitive, limit, self, q, p). nat (limit - p))") auto

text \<open>
  \<open>append_from_cursor\<close> (lines 1181 to 1224). \<open>separators\<close> is the view's setting
  \<open>jove_word_separators\<close>.
\<close>

definition append_from_cursor ::
  "(string \<Rightarrow> string \<Rightarrow> flag set \<Rightarrow> region list) \<Rightarrow> string \<Rightarrow> ISearchInfo \<Rightarrow> error + ISearchInfo" where
  "append_from_cursor find_all separators self =
     (let si = current self; si_selected = cells (heap self) (selected si)
      in if length (search si) > 0 \<and> si_selected = [] then Inr self
         else
           (let limit = int (length (buffer self));
                p = (if si_selected \<noteq> [] then region_end (last si_selected) else point self)
            in if p \<ge> limit then Inr self
               else
                 (let q = search si;
                      case_sensitive = re_search_A_Z q
                  in if p < limit then
                       (let q1 = q @ append_one (regex self) (substr (buffer self) p)
                        in case on_change find_all self q1 of
                             Inl e \<Rightarrow> Inl e
                           | Inr self1 \<Rightarrow>
                               (case append_loop find_all separators case_sensitive limit self1 q1 (p + 1) of
                                  Inl e \<Rightarrow> Inl e
                                | Inr self2 \<Rightarrow> Inr (set_text self2 (search (current self2)) True)))
                     else Inr (set_text self (search (current self)) True))))"

subsection \<open>Starting a session\<close>

text \<open>
  \<open>ISearchInfo.__init__\<close> (lines 995 to 1006) on a view with text \<open>buf\<close> and selection
  \<open>selection\<close>; \<open>CmdHelper.get_point\<close> (lines 268 to 272) is the end \<open>b\<close> of the first
  region of the selection, or \<open>-1\<close>. \<open>last_q\<close> is the class attribute \<open>last_search\<close>.
\<close>

definition ISearchInfo_init ::
  "string \<Rightarrow> region list \<Rightarrow> string option \<Rightarrow> bool \<Rightarrow> bool \<Rightarrow> error + ISearchInfo" where
  "ISearchInfo_init buf selection last_q fwd rx =
     (let (rs_ref, st1) = new_list \<lparr>cells = (\<lambda>r. []), fresh = 0\<rparr> []
      in case StackItem_init st1 [] [] rs_ref (- 1) fwd False of
           Inl e \<Rightarrow> Inl e
         | Inr (st2, root) \<Rightarrow>
             Inr (update
               \<lparr>heap = st2, current = root, prevs = [],
                point = (case selection of [] \<Rightarrow> - 1 | r # rest \<Rightarrow> region_b r),
                in_changes = 0, isearch_forward = fwd, is_active = True, regex = rx,
                buffer = buf, sel = selection, find_hl = [], selected_hl = [], mark = None,
                panel_open = False, input_text = [], last_search = last_q,
                isearch_info = False\<rparr>))"

text \<open>
  \<open>JoveIncSearchCommand.run_cmd\<close> when no session is active (lines 1271 to 1276): the
  session is constructed and registered, and \<open>open\<close> (lines 1008 to 1011) shows the
  input panel.
\<close>

definition start ::
  "string \<Rightarrow> region list \<Rightarrow> string option \<Rightarrow> bool \<Rightarrow> bool \<Rightarrow> error + ISearchInfo" where
  "start buf selection last_q fwd rx =
     (case ISearchInfo_init buf selection last_q fwd rx of
        Inl e \<Rightarrow> Inl e
      | Inr info \<Rightarrow> Inr (info\<lparr>isearch_info := True, panel_open := True, input_text := []\<rparr>))"

subsection \<open>A sample session\<close>

text \<open>
  A view with the text \<open>ab ab ab\<close> and the cursor at offset 3. \<open>demo_find_all\<close> is what
  the host finds there for the patterns \<open>a\<close> and \<open>ab\<close>; no other pattern used below
  occurs in the text. The sessions are the results of the operations named in their
  definitions: after starting a forward search, after typing \<open>a\<close>, after typing \<open>ab\<close>,
  after one more step from \<open>a\<close>, and after typing a pattern that is not found.
\<close>

definition demo_find_all :: "string \<Rightarrow> string \<Rightarrow> flag set \<Rightarrow> region list" where
  "demo_find_all buf pat flags =
     (if pat = ''a'' then [Region 0 1, Region 3 4, Region 6 7]
      else if pat = ''ab'' then [Region 0 2, Region 3 5, Region 6 8]
      else [])"

definition demo_root :: ISearchInfo where
  "demo_root = projr (start ''ab ab ab'' [Region 3 3] None True False)"

definition demo_a :: ISearchInfo where
  "demo_a = projr (find_op demo_find_all demo_root ''a'')"

definition demo_ab :: ISearchInfo where
  "demo_ab = projr (find_op demo_find_all demo_a ''ab'')"

definition demo_a_last :: ISearchInfo where
  "demo_a_last = projr (next_op demo_a False None)"

definition demo_ax :: ISearchInfo where
  "demo_ax = projr (find_op demo_find_all demo_a ''ax'')"

definition demo_x :: ISearchInfo where
  "demo_x = projr (find_op demo_find_all demo_root ''x'')"

text \<open>
  The same view with the cursor at the end of the text, offset 8: after starting a
  forward search and typing \<open>a\<close> no match is at or after the cursor; then one step
  forward, and after it one step backward.
\<close>

definition demo_end_root :: ISearchInfo where
  "demo_end_root = projr (start ''ab ab ab'' [Region 8 8] None True False)"

definition demo_end_a :: ISearchInfo where
  "demo_end_a = projr (find_op demo_find_all demo_end_root ''a'')"

definition demo_end_armed :: ISearchInfo where
  "demo_end_armed = projr (next_op demo_end_a False None)"

definition demo_end_back :: ISearchInfo where
  "demo_end_back = projr (next_op demo_end_armed False (Some False))"

text \<open>The first sample session after typing the single letter U+00C9 instead.\<close>

definition demo_e_acute :: ISearchInfo where
  "demo_e_acute = projr (find_op demo_find_all demo_root [CHR 0xC9])"

text \<open>
  One step forward from the state of \<open>a\<close>, keeping the previous selection and
  replacing it: the results of \<open>StackItem.step\<close>.
\<close>

definition demo_kept :: "store \<times> StackItem \<times> StackItem option" where
  "demo_kept = projr (step (heap demo_a) (current demo_a) True True)"

definition demo_replaced :: "store \<times> StackItem \<times> StackItem option" where
  "demo_replaced = projr (step (heap demo_a) (current demo_a) True False)"

text \<open>A view with the text \<open>FOO\<close> and the cursor at offset 0, a literal forward search.\<close>

definition demo_foo :: ISearchInfo where
  "demo_foo = projr (start ''FOO'' [Region 0 0] None True False)"

text \<open>Word separators for the sample sessions (the view's setting \<open>jove_word_separators\<close>).\<close>

definition demo_separators :: string where
  "demo_separators = ''./()-:,;<>!@#%&*|+=[]{}?''"

section \<open>Properties\<close>

subsection \<open>The closest match\<close>

text \<open>A scan that meets an element failing the test stops before the end of the list.\<close>

lemma takeWhile_length_less:
  assumes "x \<in> set xs" and "\<not> P x"
  shows "length (takeWhile P xs) < length xs"
  using assms by (induction xs) auto

text \<open>Every element the scan passes satisfies the test.\<close>

lemma takeWhile_prefix_holds:
  "j < length (takeWhile P xs) \<Longrightarrow> P (xs ! j)"
proof -
  assume j: "j < length (takeWhile P xs)"
  then have "takeWhile P xs ! j \<in> set (takeWhile P xs)" by (rule nth_mem)
  then have "P (takeWhile P xs ! j)" by (rule set_takeWhileD [THEN conjunct2])
  then show ?thesis using j by (simp add: takeWhile_nth)
qed

text \<open>Both loops count the elements they pass before they stop.\<close>

lemma find_closest_forward_takeWhile:
  "find_closest_forward rs pos i =
     (if \<forall>r\<in>set rs. region_end r < pos then - 1
      else i + int (length (takeWhile (\<lambda>r. region_end r < pos) rs)))"
  by (induction rs arbitrary: i) auto

lemma find_closest_backward_takeWhile:
  "n = i + int (length rs) \<Longrightarrow>
   find_closest_backward rs pos i n =
     i + int (length (takeWhile (\<lambda>r. region_begin r \<le> pos) rs)) - 1"
proof (induction rs arbitrary: i)
  case Nil
  then show ?case by simp
next
  case (Cons r rs)
  from Cons.prems have "n = (i + 1) + int (length rs)" by simp
  then have "find_closest_backward rs pos (i + 1) n =
        (i + 1) + int (length (takeWhile (\<lambda>r. region_begin r \<le> pos) rs)) - 1"
    by (rule Cons.IH)
  then show ?case by simp
qed

text \<open>The index returned is the sentinel \<open>-1\<close> or an index of the list.\<close>

lemma find_closest_range:
  "- 1 \<le> find_closest rs pos fwd \<and> find_closest rs pos fwd < int (length rs)"
proof (cases fwd)
  case True
  have "length (takeWhile (\<lambda>r. region_end r < pos) rs) < length rs"
    if "\<not> (\<forall>r\<in>set rs. region_end r < pos)"
    using that by (auto intro: takeWhile_length_less)
  then show ?thesis using True
    by (auto simp: find_closest_def find_closest_forward_takeWhile)
next
  case False
  have "length (takeWhile (\<lambda>r. region_begin r \<le> pos) rs) \<le> length rs"
    by (rule length_takeWhile_le)
  then show ?thesis using False find_closest_backward_takeWhile [of "int (length rs)" 0 rs pos]
    by (auto simp: find_closest_def)
qed

text \<open>
  Claim C7. For a list of matches sorted by their begin and any position \<open>pos\<close>:
  searching forward, \<open>find_closest\<close> returns the index of the first match whose end is
  at or after \<open>pos\<close> (no match before it has such an end), and \<open>-1\<close> when no match has;
  searching backward, it returns the index of the last match whose begin is at or before
  \<open>pos\<close> (no match after it has such a begin), and \<open>-1\<close> when no match has.
\<close>

theorem find_closest_first_last:
  assumes "sorted (map region_begin rs)"
  shows "(find_closest rs pos True = - 1 \<and> (\<forall>r\<in>set rs. region_end r < pos)
          \<or> 0 \<le> find_closest rs pos True \<and> nat (find_closest rs pos True) < length rs
            \<and> pos \<le> region_end (rs ! nat (find_closest rs pos True))
            \<and> (\<forall>j. j < nat (find_closest rs pos True) \<longrightarrow> region_end (rs ! j) < pos))
       \<and> (find_closest rs pos False = - 1 \<and> (\<forall>r\<in>set rs. pos < region_begin r)
          \<or> 0 \<le> find_closest rs pos False \<and> nat (find_closest rs pos False) < length rs
            \<and> region_begin (rs ! nat (find_closest rs pos False)) \<le> pos
            \<and> (\<forall>j. nat (find_closest rs pos False) < j \<and> j < length rs \<longrightarrow> pos < region_begin (rs ! j)))"
proof
  define t where "t = length (takeWhile (\<lambda>r. region_end r < pos) rs)"
  show "find_closest rs pos True = - 1 \<and> (\<forall>r\<in>set rs. region_end r < pos)
          \<or> 0 \<le> find_closest rs pos True \<and> nat (find_closest rs pos True) < length rs
            \<and> pos \<le> region_end (rs ! nat (find_closest rs pos True))
            \<and> (\<forall>j. j < nat (find_closest rs pos True) \<longrightarrow> region_end (rs ! j) < pos)"
  proof (cases "\<forall>r\<in>set rs. region_end r < pos")
    case True
    then show ?thesis by (simp add: find_closest_def find_closest_forward_takeWhile)
  next
    case False
    then have ne: "rs \<noteq> []" by auto
    have k: "find_closest rs pos True = int t"
      using False ne by (simp add: find_closest_def find_closest_forward_takeWhile t_def)
    have lt: "t < length rs"
      unfolding t_def using False by (auto intro: takeWhile_length_less)
    have "\<not> region_end (rs ! t) < pos"
      using lt unfolding t_def by (rule nth_length_takeWhile)
    then have at: "pos \<le> region_end (rs ! t)" by simp
    have before: "region_end (rs ! j) < pos" if "j < t" for j
      using that unfolding t_def by (rule takeWhile_prefix_holds)
    show ?thesis using k lt at before by simp
  qed
next
  define t where "t = length (takeWhile (\<lambda>r. region_begin r \<le> pos) rs)"
  have k: "find_closest rs pos False = int t - 1"
    using find_closest_backward_takeWhile [of "int (length rs)" 0 rs pos]
    by (simp add: find_closest_def t_def)
  have le: "t \<le> length rs" unfolding t_def by (rule length_takeWhile_le)
  have before: "region_begin (rs ! j) \<le> pos" if "j < t" for j
    using that unfolding t_def by (rule takeWhile_prefix_holds)
  have after: "pos < region_begin (rs ! j)" if "t \<le> j" "j < length rs" for j
  proof -
    have lt: "t < length rs" using that by simp
    have "\<not> region_begin (rs ! t) \<le> pos"
      using lt unfolding t_def by (rule nth_length_takeWhile)
    moreover have "map region_begin rs ! t \<le> map region_begin rs ! j"
      using assms that by (simp add: sorted_iff_nth_mono)
    ultimately show ?thesis using that lt by simp
  qed
  show "find_closest rs pos False = - 1 \<and> (\<forall>r\<in>set rs. pos < region_begin r)
          \<or> 0 \<le> find_closest rs pos False \<and> nat (find_closest rs pos False) < length rs
            \<and> region_begin (rs ! nat (find_closest rs pos False)) \<le> pos
            \<and> (\<forall>j. nat (find_closest rs pos False) < j \<and> j < length rs \<longrightarrow> pos < region_begin (rs ! j))"
  proof (cases "t = 0")
    case True
    have "pos < region_begin r" if r: "r \<in> set rs" for r
    proof -
      obtain j where j: "j < length rs" "rs ! j = r" using r by (auto simp: in_set_conv_nth)
      have "pos < region_begin (rs ! j)" using j True by (intro after) simp_all
      then show ?thesis using j by simp
    qed
    then show ?thesis using k True by simp
  next
    case False
    then have n: "nat (find_closest rs pos False) = t - 1" and nn: "0 \<le> find_closest rs pos False"
      using k by simp_all
    have b: "region_begin (rs ! (t - 1)) \<le> pos" using before [of "t - 1"] False by simp
    have a: "pos < region_begin (rs ! j)" if "t - 1 < j \<and> j < length rs" for j
      using that by (intro after) auto
    have lt: "t - 1 < length rs" using le False by simp
    have "0 \<le> find_closest rs pos False \<and> nat (find_closest rs pos False) < length rs
            \<and> region_begin (rs ! nat (find_closest rs pos False)) \<le> pos
            \<and> (\<forall>j. nat (find_closest rs pos False) < j \<and> j < length rs \<longrightarrow> pos < region_begin (rs ! j))"
      unfolding n using nn lt b a by blast
    then show ?thesis by (rule disjI2)
  qed
qed

text \<open>
  The theorem at the matches of \<open>ab\<close> in \<open>ab ab ab\<close> and the position 3: in both
  directions the closest match is the one at offset 3, of index 1.
\<close>

theorem find_closest_first_last_witness:
  "sorted (map region_begin [Region 0 2, Region 3 5, Region 6 8])
   \<and> find_closest [Region 0 2, Region 3 5, Region 6 8] 3 True = 1
   \<and> 3 \<le> region_end ([Region 0 2, Region 3 5, Region 6 8] ! 1)
   \<and> region_end ([Region 0 2, Region 3 5, Region 6 8] ! 0) < 3
   \<and> find_closest [Region 0 2, Region 3 5, Region 6 8] 3 False = 1
   \<and> region_begin ([Region 0 2, Region 3 5, Region 6 8] ! 1) \<le> 3
   \<and> 3 < region_begin ([Region 0 2, Region 3 5, Region 6 8] ! 2)"
  using find_closest_first_last [of "[Region 0 2, Region 3 5, Region 6 8]" 3]
  by (simp add: find_closest_def region_begin_def region_end_def)

subsection \<open>The sample sessions\<close>

lemmas demo_defs = start_def ISearchInfo_init_def StackItem_init_def new_list_def update_def not_in_error_def
  list_append_def find_op_def find_flags_def find_point_def get_point_def find_closest_def push_def
  demo_find_all_def region_begin_def region_end_def re_search_A_Z_def in_range_A_Z_def Let_def
  demo_root_def demo_a_def

lemmas demo_defs2 = demo_defs demo_ax_def demo_x_def next_op_def step_def step_new_def copy_list_def
  list_del_last_def demo_a_last_def demo_ab_def

lemmas finish_defs = quit_def cancel_def finish_def hide_panel_def on_done_def on_cancel_def
  set_selection_def set_mark_def deactivate_def

text \<open>Each sample session is what the operation of its definition returns.\<close>

lemma demo_root_reached: "start ''ab ab ab'' [Region 3 3] None True False = Inr demo_root"
  by (simp add: demo_defs)

lemma demo_a_reached: "find_op demo_find_all demo_root ''a'' = Inr demo_a"
  by (simp add: demo_defs)

lemma demo_ab_reached: "find_op demo_find_all demo_a ''ab'' = Inr demo_ab"
  by (simp add: demo_defs2)

lemma demo_a_last_reached: "next_op demo_a False None = Inr demo_a_last"
  by (simp add: demo_defs2)

lemma demo_ax_reached: "find_op demo_find_all demo_a ''ax'' = Inr demo_ax"
  by (simp add: demo_defs2)

lemma demo_x_reached: "find_op demo_find_all demo_root ''x'' = Inr demo_x"
  by (simp add: demo_defs2)

lemmas demo_end_defs = demo_defs2 demo_end_root_def demo_end_a_def demo_end_armed_def demo_end_back_def

lemma demo_end_root_reached: "start ''ab ab ab'' [Region 8 8] None True False = Inr demo_end_root"
  by (simp add: demo_end_defs)

lemma demo_end_a_reached: "find_op demo_find_all demo_end_root ''a'' = Inr demo_end_a"
  by (simp add: demo_end_defs)

subsection \<open>Finishing a session\<close>

text \<open>\<open>not_in_error\<close> reads the store and the chain of states only.\<close>

lemma not_in_error_finish_fields [simp]:
  "not_in_error (s\<lparr>sel := x\<rparr>) = not_in_error s"
  "not_in_error (s\<lparr>last_search := y\<rparr>) = not_in_error s"
  "not_in_error (s\<lparr>is_active := z\<rparr>) = not_in_error s"
  "not_in_error (s\<lparr>panel_open := w\<rparr>) = not_in_error s"
  "not_in_error (s\<lparr>isearch_info := v\<rparr>) = not_in_error s"
  by (simp_all add: not_in_error_def)

text \<open>\<open>finish(abort=True)\<close> puts the selection back to the point the search started at.\<close>

lemma finish_abort:
  "sel (finish True s) = [Region (point s) (point s)] \<and> find_hl (finish True s) = []
   \<and> selected_hl (finish True s) = [] \<and> point (finish True s) = point s
   \<and> panel_open (finish True s) = panel_open s \<and> current (finish True s) = current s
   \<and> prevs (finish True s) = prevs s"
  by (simp add: finish_def set_selection_def Let_def)

text \<open>
  \<open>finish(abort=False)\<close> selects the selected regions of the state \<open>not_in_error\<close> returns,
  when it has some.
\<close>

lemma finish_commit:
  "sel (finish False s) =
     (case not_in_error s of
        None \<Rightarrow> [Region (point s) (point s)]
      | Some si \<Rightarrow> if cells (heap s) (selected si) = [] then [Region (point s) (point s)]
                  else cells (heap s) (selected si))
   \<and> find_hl (finish False s) = [] \<and> selected_hl (finish False s) = []
   \<and> point (finish False s) = point s \<and> panel_open (finish False s) = panel_open s
   \<and> is_active (finish False s) = is_active s"
  by (simp add: finish_def set_selection_def set_mark_def Let_def split: option.split)

text \<open>Closing the panel, with any of the callbacks, keeps the starting point.\<close>

lemma hide_panel_fields:
  "point (hide_panel r s) = point s \<and> \<not> panel_open (hide_panel r s)"
  by (cases r) (simp_all add: hide_panel_def on_done_def on_cancel_def Let_def finish_abort finish_commit)

text \<open>
  Claim C1, as the code has it. When the current state has at least one match, \<open>quit\<close>
  is \<open>cancel\<close>: whichever callback the host runs on closing the panel, the selection ends
  as the empty region at the point the search started at, not as the selected spans;
  both highlight sets are erased and the panel is closed.
\<close>

theorem quit_succeeding_is_cancel:
  assumes "regions (current s) \<noteq> []"
  shows "quit r s = cancel r s \<and> sel (quit r s) = [Region (point s) (point s)]
         \<and> find_hl (quit r s) = [] \<and> selected_hl (quit r s) = [] \<and> \<not> panel_open (quit r s)"
  using assms by (simp add: quit_def cancel_def finish_abort hide_panel_fields)

text \<open>The theorem at the sample session after typing \<open>a\<close>, which started at offset 3.\<close>

theorem quit_succeeding_is_cancel_witness:
  "regions (current demo_a) \<noteq> [] \<and> quit CallsOnDone demo_a = cancel CallsOnDone demo_a
   \<and> point demo_a = 3 \<and> sel (quit CallsOnDone demo_a) = [Region 3 3]
   \<and> find_hl (quit CallsOnDone demo_a) = [] \<and> selected_hl (quit CallsOnDone demo_a) = []
   \<and> \<not> panel_open (quit CallsOnDone demo_a)"
proof -
  have h: "regions (current demo_a) \<noteq> []" by (simp add: demo_defs)
  have p: "point demo_a = 3" by (simp add: demo_defs)
  show ?thesis using h p quit_succeeding_is_cancel [OF h, of CallsOnDone]
    by auto
qed

text \<open>
  Claim C1 as stated fails. After typing \<open>a\<close> the current state has three matches and
  is itself the nearest state with selected spans, the span from 3 to 4, which a commit
  (\<open>on_done\<close>) selects. \<open>quit\<close> leaves the empty region at the starting point 3 instead,
  whatever the host does on closing the panel.
\<close>

theorem quit_succeeding_not_commit:
  "regions (current demo_a) \<noteq> []
   \<and> not_in_error demo_a = Some (current demo_a)
   \<and> cells (heap demo_a) (selected (current demo_a)) = [Region 3 4]
   \<and> sel (on_done demo_a) = [Region 3 4]
   \<and> sel (quit NoCallback demo_a) = [Region 3 3]
   \<and> sel (quit CallsOnDone demo_a) = [Region 3 3]
   \<and> sel (quit CallsOnCancel demo_a) = [Region 3 3]"
  by (simp add: demo_defs finish_defs)

text \<open>
  Claim C4, as the code has it. \<open>deactivate\<close> finishes the session as a commit, not as a
  cancel: the selection becomes the selected spans of the nearest state that has some
  (that \<open>not_in_error\<close> returns), and the empty region at the starting point only when
  there is none; it is the selection \<open>on_done\<close> leaves on an active session. Both
  highlight sets are erased and the session is marked inactive.
\<close>

theorem deactivate_is_commit:
  "sel (deactivate s) =
     (case not_in_error s of
        None \<Rightarrow> [Region (point s) (point s)]
      | Some si \<Rightarrow> if cells (heap s) (selected si) = [] then [Region (point s) (point s)]
                  else cells (heap s) (selected si))
   \<and> find_hl (deactivate s) = [] \<and> selected_hl (deactivate s) = []
   \<and> \<not> is_active (deactivate s)
   \<and> (is_active s \<longrightarrow> sel (deactivate s) = sel (on_done s))"
  by (simp add: deactivate_def on_done_def finish_commit Let_def split: option.split)

text \<open>The theorem at the sample session after typing \<open>a\<close>.\<close>

theorem deactivate_is_commit_witness:
  "is_active demo_a \<and> not_in_error demo_a = Some (current demo_a)
   \<and> cells (heap demo_a) (selected (current demo_a)) = [Region 3 4]
   \<and> sel (deactivate demo_a) = [Region 3 4] \<and> sel (on_done demo_a) = [Region 3 4]
   \<and> find_hl (deactivate demo_a) = [] \<and> selected_hl (deactivate demo_a) = []
   \<and> \<not> is_active (deactivate demo_a)"
  using deactivate_is_commit [of demo_a]
  by (simp add: demo_defs finish_defs)

text \<open>
  Claim C4 as stated fails. The sample session after typing \<open>a\<close> started at offset 3 and
  has the selected span from 3 to 4; \<open>deactivate\<close> leaves that span selected, where
  \<open>cancel\<close> leaves the empty region at 3.
\<close>

theorem deactivate_not_cancel:
  "point demo_a = 3
   \<and> cells (heap demo_a) (selected (current demo_a)) = [Region 3 4]
   \<and> sel (deactivate demo_a) = [Region 3 4]
   \<and> sel (deactivate demo_a) \<noteq> [Region 3 3]
   \<and> sel (cancel CallsOnCancel demo_a) = [Region 3 3]"
  by (simp add: demo_defs finish_defs)

subsection \<open>Quitting a failing search\<close>

text \<open>
  The loop of \<open>quit\<close> skips the predecessors without matches: it stops at the last of
  them, or at the current state when the nearest predecessor has matches.
\<close>

lemma quit_back_dropWhile:
  "quit_back cur ps =
     (last (cur # takeWhile (\<lambda>p. regions p = []) ps), dropWhile (\<lambda>p. regions p = []) ps)"
  by (induction ps arbitrary: cur) auto

text \<open>What \<open>pop\<close> changes when there is a predecessor, and what it leaves.\<close>

lemma pop_fields:
  "prevs s = p # ps \<Longrightarrow>
   current (pop s) = p \<and> prevs (pop s) = ps \<and> panel_open (pop s) = panel_open s
   \<and> sel (pop s) = sel s \<and> isearch_info (pop s) = isearch_info s
   \<and> is_active (pop s) = is_active s \<and> input_text (pop s) = search p
   \<and> isearch_forward (pop s) = forward p \<and> point (pop s) = point s
   \<and> heap (pop s) = heap s"
  by (simp add: pop_def set_text_def update_def Let_def split: option.split)

text \<open>
  Claim C8. Let the current state have no match, and drop from the chain of its
  predecessors the leading states without matches. If nothing is left, \<open>quit\<close> is
  \<open>cancel\<close> at the root: the selection is the empty region at the starting point, the
  highlight sets are erased, the panel is closed. Otherwise the first state left, the
  nearest predecessor with matches, becomes current with its own predecessors, its
  search string is put in the input panel, and the session stays as it was: the panel,
  the registration, the activity flag and the selection are unchanged.
\<close>

theorem quit_failing:
  assumes "regions (current s) = []"
  shows "(dropWhile (\<lambda>p. regions p = []) (prevs s) = [] \<longrightarrow>
            quit r s = cancel r (s\<lparr>current := last (current s # prevs s), prevs := []\<rparr>)
            \<and> sel (quit r s) = [Region (point s) (point s)]
            \<and> find_hl (quit r s) = [] \<and> selected_hl (quit r s) = []
            \<and> \<not> panel_open (quit r s))
       \<and> (dropWhile (\<lambda>p. regions p = []) (prevs s) \<noteq> [] \<longrightarrow>
            current (quit r s) = hd (dropWhile (\<lambda>p. regions p = []) (prevs s))
            \<and> prevs (quit r s) = tl (dropWhile (\<lambda>p. regions p = []) (prevs s))
            \<and> regions (current (quit r s)) \<noteq> []
            \<and> panel_open (quit r s) = panel_open s
            \<and> isearch_info (quit r s) = isearch_info s
            \<and> is_active (quit r s) = is_active s
            \<and> sel (quit r s) = sel s
            \<and> input_text (quit r s) = search (current (quit r s)))"
proof (cases "dropWhile (\<lambda>p. regions p = []) (prevs s)")
  case Nil
  then have all: "takeWhile (\<lambda>p. regions p = []) (prevs s) = prevs s"
    by (metis append_Nil2 takeWhile_dropWhile_id)
  have qb: "quit_back (current s) (prevs s) = (last (current s # prevs s), [])"
    by (simp only: quit_back_dropWhile Nil all)
  have q: "quit r s = cancel r (s\<lparr>current := last (current s # prevs s), prevs := []\<rparr>)"
    using assms by (simp add: quit_def qb)
  have c: "sel (quit r s) = [Region (point s) (point s)]
            \<and> find_hl (quit r s) = [] \<and> selected_hl (quit r s) = []
            \<and> \<not> panel_open (quit r s)"
    by (simp add: q cancel_def finish_abort hide_panel_fields)
  show ?thesis using Nil q c by blast
next
  case (Cons p ps)
  have np: "regions p \<noteq> []"
    using Cons hd_dropWhile [of "\<lambda>p. regions p = []" "prevs s"] by simp
  define s1 where "s1 = s\<lparr>current := last (current s # takeWhile (\<lambda>p. regions p = []) (prevs s)), prevs := p # ps\<rparr>"
  have qb: "quit_back (current s) (prevs s) =
        (last (current s # takeWhile (\<lambda>p. regions p = []) (prevs s)), p # ps)"
    by (simp only: quit_back_dropWhile Cons)
  have q: "quit r s = pop s1"
    using assms by (simp add: quit_def qb s1_def)
  have "prevs s1 = p # ps" by (simp add: s1_def)
  from pop_fields [OF this] show ?thesis using Cons np
    by (simp add: q s1_def)
qed

text \<open>
  The theorem at two sample sessions. After \<open>a\<close> (three matches) and then \<open>ax\<close> (none),
  \<open>quit\<close> goes back to the state of \<open>a\<close> and the panel stays open. After \<open>x\<close> alone
  (none), only the root is behind and \<open>quit\<close> cancels.
\<close>

theorem quit_failing_witness:
  "regions (current demo_ax) = []
   \<and> dropWhile (\<lambda>p. regions p = []) (prevs demo_ax) = prevs demo_ax
   \<and> prevs demo_ax = [current demo_a, current demo_root]
   \<and> current (quit CallsOnCancel demo_ax) = current demo_a
   \<and> prevs (quit CallsOnCancel demo_ax) = [current demo_root]
   \<and> panel_open (quit CallsOnCancel demo_ax)
   \<and> sel (quit CallsOnCancel demo_ax) = sel demo_ax
   \<and> input_text (quit CallsOnCancel demo_ax) = ''a''
   \<and> regions (current demo_x) = []
   \<and> dropWhile (\<lambda>p. regions p = []) (prevs demo_x) = []
   \<and> point demo_x = 3
   \<and> sel (quit CallsOnCancel demo_x) = [Region 3 3]
   \<and> \<not> panel_open (quit CallsOnCancel demo_x)"
proof -
  have h1: "regions (current demo_ax) = []" by (simp add: demo_defs2)
  have h2: "regions (current demo_x) = []" by (simp add: demo_defs2)
  have d1: "dropWhile (\<lambda>p. regions p = []) (prevs demo_ax) = prevs demo_ax"
    and p1: "prevs demo_ax = [current demo_a, current demo_root]"
    and o1: "panel_open demo_ax" and t1: "search (current demo_a) = ''a''"
    by (simp_all add: demo_defs2)
  have d2: "dropWhile (\<lambda>p. regions p = []) (prevs demo_x) = []" and p2: "point demo_x = 3"
    by (simp_all add: demo_defs2)
  show ?thesis
    using h1 h2 d1 p1 o1 t1 d2 p2 quit_failing [OF h1, of CallsOnCancel] quit_failing [OF h2, of CallsOnCancel]
    by auto
qed

subsection \<open>Stepping through the matches\<close>

text \<open>
  With an index below the length of the matches the constructor returns, and appends
  the match of a non-negative index to the list it was given.
\<close>

lemma StackItem_init_in_range:
  "idx < int (length rs) \<Longrightarrow>
   StackItem_init st q rs r idx fwd wr =
     Inr (if 0 \<le> idx then list_append st r (rs ! nat idx) else st,
          \<lparr>search = q, regions = rs, selected = r, current_index = idx,
           forward = fwd, try_wrapped = False, wrapped = wr\<rparr>)"
  by (auto simp: StackItem_init_def Let_def)

text \<open>
  The tail of \<open>step\<close> then returns a state whose list of selected regions is a newly
  allocated object: the copy, shortened unless \<open>keep\<close>, with the match appended.
\<close>

lemma step_new_in_range:
  "idx < int (length (regions si)) \<Longrightarrow>
   step_new st si idx fwd keep wr =
     Inr ((if 0 \<le> idx
           then \<lparr>cells = (cells st)(fresh st :=
                   (if keep then cells st (selected si) else butlast (cells st (selected si)))
                     @ [regions si ! nat idx]),
                 fresh = Suc (fresh st)\<rparr>
           else \<lparr>cells = (cells st)(fresh st :=
                   (if keep then cells st (selected si) else butlast (cells st (selected si)))),
                 fresh = Suc (fresh st)\<rparr>),
          si,
          Some \<lparr>search = search si, regions = regions si, selected = fresh st, current_index = idx,
           forward = fwd, try_wrapped = False, wrapped = wr\<rparr>)"
  by (auto simp: step_new_def copy_list_def new_list_def list_del_last_def list_append_def
      StackItem_init_in_range Let_def)

text \<open>\<open>update\<close> only writes the two highlight sets.\<close>

lemma update_fields:
  "current (update s) = current s \<and> prevs (update s) = prevs s \<and> heap (update s) = heap s
   \<and> sel (update s) = sel s \<and> point (update s) = point s \<and> buffer (update s) = buffer s
   \<and> regex (update s) = regex s \<and> isearch_forward (update s) = isearch_forward s
   \<and> in_changes (update s) = in_changes s \<and> panel_open (update s) = panel_open s"
  by (simp add: update_def split: option.split)

text \<open>
  Claim C3, as the code has it. Take a session whose current state is not the root (its
  \<open>prev\<close> is not \<open>None\<close>: a query was typed), has at least one match and has
  \<open>try_wrapped\<close> not set, by no earlier call in either direction, and a direction \<open>d\<close>
  of travel, the one given or else the state's own, in which
  the index is at the boundary: the sentinel, \<open>0\<close> going backward or the last index going
  forward. The first call of \<open>next\<close> changes nothing but \<open>try_wrapped\<close> of the current
  state, which it sets. The same call again pushes a new state on top of the old one,
  whose \<open>try_wrapped\<close> is cleared again: its index is \<open>0\<close> going forward and the last
  index going backward, it is \<open>wrapped\<close>, its own \<open>try_wrapped\<close> is not set, and it has
  the same query and matches.
\<close>

theorem two_phase_wrap:
  assumes "prevs s \<noteq> []" and "regions (current s) \<noteq> []" and "\<not> try_wrapped (current s)"
    and "d = (case dir of None \<Rightarrow> forward (current s) | Some f \<Rightarrow> f)"
    and "current_index (current s) < 0 \<or> (current_index (current s) = 0 \<and> \<not> d)
         \<or> (current_index (current s) = int (length (regions (current s))) - 1 \<and> d)"
  shows "next_op s keep dir = Inr (s\<lparr>current := (current s)\<lparr>try_wrapped := True\<rparr>\<rparr>)
       \<and> (\<exists>s2. next_op (s\<lparr>current := (current s)\<lparr>try_wrapped := True\<rparr>\<rparr>) keep dir = Inr s2
            \<and> prevs s2 = current s # prevs s
            \<and> current_index (current s2) = (if d then 0 else int (length (regions (current s))) - 1)
            \<and> wrapped (current s2) \<and> \<not> try_wrapped (current s2)
            \<and> regions (current s2) = regions (current s)
            \<and> search (current s2) = search (current s)
            \<and> forward (current s2) = d)"
proof -
  let ?c = "current s"
  define m where "m = int (length (regions ?c))"
  define i where "i = (if d then 0 else m - 1)"
  have rc: "regions ?c \<noteq> []" and tw: "\<not> try_wrapped ?c"
    and bd: "current_index ?c < 0 \<or> (current_index ?c = 0 \<and> \<not> d) \<or> (current_index ?c = m - 1 \<and> d)"
    using assms(2,3,5) by (simp_all add: m_def)
  have dc: "(case dir of None \<Rightarrow> forward ?c | Some f \<Rightarrow> f) = d"
    using assms(4) by simp
  have first: "step (heap s) ?c d keep = Inr (heap s, ?c\<lparr>try_wrapped := True\<rparr>, None)"
    using rc tw bd by (simp add: step_def Let_def m_def)
  have n1: "next_op s keep dir = Inr (s\<lparr>current := ?c\<lparr>try_wrapped := True\<rparr>\<rparr>)"
    using assms(1) by (simp add: next_op_def dc first)
  have idx: "i < int (length (regions ?c))" using rc by (simp add: i_def m_def)
  have same: "?c\<lparr>try_wrapped := True, try_wrapped := False\<rparr> = ?c"
    using tw by (cases ?c) simp
  have second: "step (heap s) (?c\<lparr>try_wrapped := True\<rparr>) d keep = step_new (heap s) ?c i d keep True"
    using rc bd by (simp add: step_def Let_def same i_def m_def)
  obtain st new where sn: "step_new (heap s) ?c i d keep True = Inr (st, ?c, Some new)"
    and new: "new = \<lparr>search = search ?c, regions = regions ?c, selected = fresh (heap s),
                     current_index = i, forward = d, try_wrapped = False, wrapped = True\<rparr>"
    using step_new_in_range [OF idx] by blast
  have d2: "(case dir of None \<Rightarrow> forward (current (s\<lparr>current := ?c\<lparr>try_wrapped := True\<rparr>\<rparr>))
               | Some f \<Rightarrow> f) = d"
    using assms(4) by (simp split: option.split)
  define s2 where "s2 = update (push (s\<lparr>heap := st, current := ?c\<rparr>) new)"
  have n2: "next_op (s\<lparr>current := ?c\<lparr>try_wrapped := True\<rparr>\<rparr>) keep dir = Inr s2"
    using assms(1) by (simp add: next_op_def d2 second sn s2_def)
  have f: "prevs s2 = ?c # prevs s \<and> current s2 = new"
    by (simp add: s2_def update_fields push_def)
  have "prevs s2 = current s # prevs s
        \<and> current_index (current s2) = (if d then 0 else int (length (regions (current s))) - 1)
        \<and> wrapped (current s2) \<and> \<not> try_wrapped (current s2)
        \<and> regions (current s2) = regions (current s)
        \<and> search (current s2) = search (current s)
        \<and> forward (current s2) = d"
    using f by (simp add: new i_def m_def)
  then show ?thesis using n1 n2 by blast
qed

text \<open>
  The theorem at the sample session whose current state is at the last of the three
  matches of \<open>a\<close>, searching forward.
\<close>

theorem two_phase_wrap_witness:
  "prevs demo_a_last \<noteq> [] \<and> regions (current demo_a_last) \<noteq> []
   \<and> \<not> try_wrapped (current demo_a_last) \<and> forward (current demo_a_last)
   \<and> current_index (current demo_a_last) = int (length (regions (current demo_a_last))) - 1
   \<and> next_op demo_a_last False None
       = Inr (demo_a_last\<lparr>current := (current demo_a_last)\<lparr>try_wrapped := True\<rparr>\<rparr>)
   \<and> prevs (projr (next_op (demo_a_last\<lparr>current := (current demo_a_last)\<lparr>try_wrapped := True\<rparr>\<rparr>) False None))
       = current demo_a_last # prevs demo_a_last
   \<and> current_index (current (projr (next_op (demo_a_last\<lparr>current := (current demo_a_last)\<lparr>try_wrapped := True\<rparr>\<rparr>) False None))) = 0
   \<and> wrapped (current (projr (next_op (demo_a_last\<lparr>current := (current demo_a_last)\<lparr>try_wrapped := True\<rparr>\<rparr>) False None)))"
proof -
  have h1: "prevs demo_a_last \<noteq> []" and h2: "regions (current demo_a_last) \<noteq> []"
    and h3: "\<not> try_wrapped (current demo_a_last)"
    and h4: "forward (current demo_a_last)"
    and h5: "current_index (current demo_a_last) = int (length (regions (current demo_a_last))) - 1"
    by (simp_all add: demo_defs2)
  have d: "True = (case None of None \<Rightarrow> forward (current demo_a_last) | Some f \<Rightarrow> f)"
    using h4 by simp
  have b: "current_index (current demo_a_last) < 0
      \<or> (current_index (current demo_a_last) = 0 \<and> \<not> True)
      \<or> (current_index (current demo_a_last) = int (length (regions (current demo_a_last))) - 1 \<and> True)"
    using h5 by simp
  from two_phase_wrap [OF h1 h2 h3 d b, of False]
  obtain s2 where "next_op demo_a_last False None
       = Inr (demo_a_last\<lparr>current := (current demo_a_last)\<lparr>try_wrapped := True\<rparr>\<rparr>)"
    and "next_op (demo_a_last\<lparr>current := (current demo_a_last)\<lparr>try_wrapped := True\<rparr>\<rparr>) False None = Inr s2"
    and "prevs s2 = current demo_a_last # prevs demo_a_last"
    and "current_index (current s2) = 0" and "wrapped (current s2)"
    by auto
  then show ?thesis using h1 h2 h3 h4 h5 by simp
qed

text \<open>
  Claim C3 as stated fails. In the view \<open>ab ab ab\<close> with the cursor at offset 8, a
  forward search for \<open>a\<close> has three matches and none at or after the cursor: the index
  is the sentinel, at the boundary in both directions. A step forward pushes nothing and
  sets \<open>try_wrapped\<close>. The step backward that follows is the first call in its
  direction, and the index is at the boundary in that direction; yet it pushes a new
  state at once, wrapped and at the last match, since the one flag serves both
  directions.
\<close>

theorem armed_wrap_pushes_at_once:
  "find_op demo_find_all demo_end_root ''a'' = Inr demo_end_a
   \<and> regions (current demo_end_a) = [Region 0 1, Region 3 4, Region 6 7]
   \<and> current_index (current demo_end_a) = - 1
   \<and> \<not> try_wrapped (current demo_end_a)
   \<and> next_op demo_end_a False None = Inr demo_end_armed
   \<and> demo_end_armed = demo_end_a\<lparr>current := (current demo_end_a)\<lparr>try_wrapped := True\<rparr>\<rparr>
   \<and> next_op demo_end_armed False (Some False) = Inr demo_end_back
   \<and> prevs demo_end_back = current demo_end_a # prevs demo_end_a
   \<and> current_index (current demo_end_back) = 2
   \<and> wrapped (current demo_end_back)
   \<and> \<not> forward (current demo_end_back)"
  by (simp add: demo_end_defs)

text \<open>Whenever \<open>step\<close> returns a state, it is the tail of the method that made it.\<close>

lemma step_Some_is_step_new:
  assumes "step st si fwd keep = Inr (st', si', Some new)" and "regions si \<noteq> []"
  shows "\<exists>self1 i wr. step_new st self1 i fwd keep wr = Inr (st', si', Some new)
     \<and> selected self1 = selected si \<and> regions self1 = regions si \<and> 0 \<le> i"
proof -
  define idx where "idx = current_index si"
  define m where "m = int (length (regions si))"
  have m: "0 < m" using assms(2) by (simp add: m_def)
  have "step_new st (si\<lparr>try_wrapped := False\<rparr>) (if fwd then 0 else m - 1) fwd keep True
          = Inr (st', si', Some new)
        \<or> (0 \<le> (if fwd then idx + 1 else idx - 1)
           \<and> step_new st si (if fwd then idx + 1 else idx - 1) fwd keep (wrapped si)
          = Inr (st', si', Some new))"
    using assms by (auto simp: step_def Let_def idx_def m_def split: if_splits)
  then show ?thesis
  proof
    assume a: "step_new st (si\<lparr>try_wrapped := False\<rparr>) (if fwd then 0 else m - 1) fwd keep True
          = Inr (st', si', Some new)"
    have "0 \<le> (if fwd then 0 else m - 1)" using m by simp
    then show ?thesis using a
      by (intro exI [of _ "si\<lparr>try_wrapped := False\<rparr>"] exI [of _ "if fwd then 0 else m - 1"] exI [of _ True]) simp
  next
    assume a: "0 \<le> (if fwd then idx + 1 else idx - 1)
           \<and> step_new st si (if fwd then idx + 1 else idx - 1) fwd keep (wrapped si)
          = Inr (st', si', Some new)"
    then show ?thesis
      by (intro exI [of _ si] exI [of _ "if fwd then idx + 1 else idx - 1"] exI [of _ "wrapped si"]) simp
  qed
qed

text \<open>An index at or above the number of matches makes the constructor raise.\<close>

lemma step_new_Inr_bound:
  "step_new st self1 i fwd keep wr = Inr x \<Longrightarrow> 0 \<le> i \<Longrightarrow> regions self1 \<noteq> [] \<Longrightarrow>
   i < int (length (regions self1))"
  by (auto simp: step_new_def copy_list_def new_list_def StackItem_init_def Let_def split: if_splits)

text \<open>
  Claim C6. Let \<open>step\<close> on a state with matches, whose list of selected regions is an
  allocated object of the store, return a new state. Its index is an index of the
  matches; its list of selected regions is another object than the old state's and
  holds the old list, all of it with \<open>keep\<close> and without its last element otherwise,
  followed by the match at the new index. The old state still refers to its list, and
  that list, like every object allocated before the call, has the contents it had.
\<close>

theorem step_selected:
  assumes "step st si fwd keep = Inr (st', si', Some new)"
    and "regions si \<noteq> []" and "selected si < fresh st"
  shows "0 \<le> current_index new \<and> nat (current_index new) < length (regions si)
       \<and> regions new = regions si
       \<and> cells st' (selected new) =
           (if keep then cells st (selected si) else butlast (cells st (selected si)))
             @ [regions si ! nat (current_index new)]
       \<and> selected new \<noteq> selected si
       \<and> selected si' = selected si
       \<and> cells st' (selected si) = cells st (selected si)
       \<and> (\<forall>r. r < fresh st \<longrightarrow> cells st' r = cells st r)"
proof -
  obtain self1 i wr where sn: "step_new st self1 i fwd keep wr = Inr (st', si', Some new)"
    and self1: "selected self1 = selected si" "regions self1 = regions si"
    and lo: "0 \<le> i"
    using step_Some_is_step_new [OF assms(1,2)] by blast
  have hi: "i < int (length (regions self1))"
    using sn lo assms(2) self1 by (intro step_new_Inr_bound [of st self1 i fwd keep wr]) simp_all
  from step_new_in_range [OF hi, of st fwd keep wr] sn lo hi self1 assms(3)
  show ?thesis by auto
qed


text \<open>
  The theorem at the state of \<open>a\<close> in the sample session, whose list is the span from 3
  to 4: stepping forward to the match from 6 to 7 gives both spans with \<open>keep\<close> and only
  the new one without, and the list of the old state is the same after either call.
\<close>

theorem step_selected_witness:
  "step (heap demo_a) (current demo_a) True True
     = Inr (fst demo_kept, current demo_a, Some (the (snd (snd demo_kept))))
   \<and> step (heap demo_a) (current demo_a) True False
     = Inr (fst demo_replaced, current demo_a, Some (the (snd (snd demo_replaced))))
   \<and> regions (current demo_a) \<noteq> [] \<and> selected (current demo_a) < fresh (heap demo_a)
   \<and> cells (heap demo_a) (selected (current demo_a)) = [Region 3 4]
   \<and> current_index (the (snd (snd demo_kept))) = 2
   \<and> regions (current demo_a) ! 2 = Region 6 7
   \<and> cells (fst demo_kept) (selected (the (snd (snd demo_kept)))) = [Region 3 4, Region 6 7]
   \<and> cells (fst demo_replaced) (selected (the (snd (snd demo_replaced)))) = [Region 6 7]
   \<and> cells (fst demo_kept) (selected (current demo_a)) = [Region 3 4]
   \<and> cells (fst demo_replaced) (selected (current demo_a)) = [Region 3 4]"
proof -
  have k: "step (heap demo_a) (current demo_a) True True
     = Inr (fst demo_kept, current demo_a, Some (the (snd (snd demo_kept))))"
    and r: "step (heap demo_a) (current demo_a) True False
     = Inr (fst demo_replaced, current demo_a, Some (the (snd (snd demo_replaced))))"
    and h2: "regions (current demo_a) \<noteq> []" and h3: "selected (current demo_a) < fresh (heap demo_a)"
    and c: "cells (heap demo_a) (selected (current demo_a)) = [Region 3 4]"
    and i: "current_index (the (snd (snd demo_kept))) = 2"
           "current_index (the (snd (snd demo_replaced))) = 2"
    and g: "regions (current demo_a) ! 2 = Region 6 7"
    by (simp_all add: demo_defs2 demo_kept_def demo_replaced_def)
  show ?thesis
    using k r h2 h3 c i g step_selected [OF k h2 h3] step_selected [OF r h2 h3]
    by simp
qed


subsection \<open>Changing the query\<close>

text \<open>
  With a non-empty query, and the current state's \<open>get_point\<close> not raising, \<open>find\<close>
  pushes a state for the matches the host finds: its list of selected regions is a newly
  allocated object, holding the closest match when there is one.
\<close>

lemma find_op_pushes:
  fixes fa s val p
  defines "rs \<equiv> fa (buffer s) val (find_flags (regex s) val)"
  defines "idx \<equiv> find_closest rs p (isearch_forward s)"
  assumes "val \<noteq> []" and "find_point s = Inr p"
  obtains st2 where
    "find_op fa s val =
       Inr (update (push (s\<lparr>heap := st2\<rparr>)
         \<lparr>search = val, regions = rs, selected = fresh (heap s), current_index = idx,
          forward = isearch_forward s, try_wrapped = False, wrapped = wrapped (current s)\<rparr>))"
    and "fresh st2 = Suc (fresh (heap s))"
    and "cells st2 = (cells (heap s))(fresh (heap s) := (if 0 \<le> idx then [rs ! nat idx] else []))"
proof -
  have r: "idx < int (length rs)" using find_closest_range [of rs p "isearch_forward s"]
    by (simp add: idx_def)
  define st1 where "st1 = snd (new_list (heap s) [])"
  define st2 where "st2 = (if 0 \<le> idx then list_append st1 (fresh (heap s)) (rs ! nat idx) else st1)"
  have "find_op fa s val =
       Inr (update (push (s\<lparr>heap := st2\<rparr>)
         \<lparr>search = val, regions = rs, selected = fresh (heap s), current_index = idx,
          forward = isearch_forward s, try_wrapped = False, wrapped = wrapped (current s)\<rparr>))"
    using assms(3,4) StackItem_init_in_range [OF r, of st1 val "fresh (heap s)" "isearch_forward s" "wrapped (current s)"]
    by (simp add: find_op_def Let_def new_list_def st2_def st1_def rs_def [symmetric] idx_def [symmetric])
  moreover have "fresh st2 = Suc (fresh (heap s))"
    by (simp add: st2_def st1_def new_list_def list_append_def)
  moreover have "cells st2 = (cells (heap s))(fresh (heap s) := (if 0 \<le> idx then [rs ! nat idx] else []))"
    by (simp add: st2_def st1_def new_list_def list_append_def)
  ultimately show ?thesis by (rule that)
qed

text \<open>When \<open>find\<close> returns, \<open>get_point\<close> of the current state did not raise.\<close>

lemma find_op_Inr_point:
  "find_op fa s val = Inr s' \<Longrightarrow> val \<noteq> [] \<Longrightarrow> \<exists>p. find_point s = Inr p"
  by (cases "find_point s") (simp_all add: find_op_def Let_def)

text \<open>
  Claim C2, as the code has it. Let \<open>find\<close> with a non-empty query return, on a session
  whose current state's list of selected regions is an allocated object. The state it
  pushes on top of the previous one has a list of its own, a new object: it holds just
  the match at the new index when that is not the sentinel \<open>-1\<close>, and nothing
  otherwise; the selected regions of the previous state are not carried over. The list
  of the previous state, like every object allocated before the call, has the contents
  it had.
\<close>

theorem find_selected_fresh:
  assumes "find_op fa s val = Inr s'" and "val \<noteq> []"
    and "selected (current s) < fresh (heap s)"
  shows "prevs s' = current s # prevs s
       \<and> current_index (current s') < int (length (regions (current s')))
       \<and> cells (heap s') (selected (current s')) =
           (if 0 \<le> current_index (current s')
            then [regions (current s') ! nat (current_index (current s'))] else [])
       \<and> selected (current s') \<noteq> selected (current s)
       \<and> cells (heap s') (selected (current s)) = cells (heap s) (selected (current s))
       \<and> (\<forall>r. r < fresh (heap s) \<longrightarrow> cells (heap s') r = cells (heap s) r)"
proof -
  obtain p where p: "find_point s = Inr p"
    using find_op_Inr_point [OF assms(1,2)] by blast
  have r: "find_closest (fa (buffer s) val (find_flags (regex s) val)) p (isearch_forward s)
      < int (length (fa (buffer s) val (find_flags (regex s) val)))"
    using find_closest_range by simp
  obtain st2 where f: "find_op fa s val =
       Inr (update (push (s\<lparr>heap := st2\<rparr>)
         \<lparr>search = val, regions = fa (buffer s) val (find_flags (regex s) val),
          selected = fresh (heap s),
          current_index = find_closest (fa (buffer s) val (find_flags (regex s) val)) p (isearch_forward s),
          forward = isearch_forward s, try_wrapped = False, wrapped = wrapped (current s)\<rparr>))"
    and c: "cells st2 = (cells (heap s))(fresh (heap s) :=
          (if 0 \<le> find_closest (fa (buffer s) val (find_flags (regex s) val)) p (isearch_forward s)
           then [fa (buffer s) val (find_flags (regex s) val)
                   ! nat (find_closest (fa (buffer s) val (find_flags (regex s) val)) p (isearch_forward s))]
           else []))"
    using find_op_pushes [OF assms(2) p, of fa] by blast
  have s': "s' = update (push (s\<lparr>heap := st2\<rparr>)
         \<lparr>search = val, regions = fa (buffer s) val (find_flags (regex s) val),
          selected = fresh (heap s),
          current_index = find_closest (fa (buffer s) val (find_flags (regex s) val)) p (isearch_forward s),
          forward = isearch_forward s, try_wrapped = False, wrapped = wrapped (current s)\<rparr>)"
    using assms(1) f by simp
  show ?thesis
    using assms(3) r unfolding s'
    by (auto simp: update_fields push_def c)
qed

text \<open>
  The theorem at the sample session after \<open>a\<close>, whose selected span is the one from 3
  to 4, on typing \<open>ab\<close>.
\<close>

theorem find_selected_fresh_witness:
  "find_op demo_find_all demo_a ''ab'' = Inr demo_ab \<and> ''ab'' \<noteq> []
   \<and> selected (current demo_a) < fresh (heap demo_a)
   \<and> prevs demo_ab = current demo_a # prevs demo_a
   \<and> current_index (current demo_ab) = 1
   \<and> regions (current demo_ab) ! 1 = Region 3 5
   \<and> cells (heap demo_ab) (selected (current demo_ab)) = [Region 3 5]
   \<and> selected (current demo_ab) \<noteq> selected (current demo_a)
   \<and> cells (heap demo_a) (selected (current demo_a)) = [Region 3 4]
   \<and> cells (heap demo_ab) (selected (current demo_a)) = [Region 3 4]"
proof -
  have h1: "find_op demo_find_all demo_a ''ab'' = Inr demo_ab" by (rule demo_ab_reached)
  have h2: "''ab'' \<noteq> []" by simp
  have h3: "selected (current demo_a) < fresh (heap demo_a)" by (simp add: demo_defs)
  have i: "current_index (current demo_ab) = 1" "regions (current demo_ab) ! 1 = Region 3 5"
    and c: "cells (heap demo_a) (selected (current demo_a)) = [Region 3 4]"
    by (simp_all add: demo_defs2)
  show ?thesis using h1 h2 h3 i c find_selected_fresh [OF h1 h2 h3] by simp
qed

text \<open>
  Claim C2 as stated fails. After \<open>a\<close> the list of selected regions is the span from 3
  to 4. Typing \<open>ab\<close> pushes a state whose active match, of index 1, is the span from 3
  to 5, and whose list of selected regions is that span alone, not the previous list
  with the span appended.
\<close>

theorem find_drops_previous_selection:
  "find_op demo_find_all demo_a ''ab'' = Inr demo_ab
   \<and> prevs demo_ab = current demo_a # prevs demo_a
   \<and> cells (heap demo_a) (selected (current demo_a)) = [Region 3 4]
   \<and> current_index (current demo_ab) = 1
   \<and> regions (current demo_ab) ! 1 = Region 3 5
   \<and> cells (heap demo_ab) (selected (current demo_ab)) = [Region 3 5]
   \<and> cells (heap demo_ab) (selected (current demo_ab))
       \<noteq> cells (heap demo_a) (selected (current demo_a)) @ [Region 3 5]"
  by (simp add: demo_defs2)

text \<open>
  Claim C5, as the code has it. Let the query be non-empty and the index of the current
  state be below the number of its matches. Then \<open>find\<close> returns and pushes a state for
  the matches the host finds, whose index is the closest match, in the direction of the
  session, to this position: when the current state has an active match, the begin of
  that match if the state's direction is forward and its end if it is backward; when
  it has none, the point the search started at.
\<close>

theorem find_anchor:
  assumes "val \<noteq> []"
    and "current_index (current s) < int (length (regions (current s)))"
  shows "\<exists>s'. find_op fa s val = Inr s'
       \<and> regions (current s') = fa (buffer s) val (find_flags (regex s) val)
       \<and> current_index (current s') =
           find_closest (regions (current s'))
             (if 0 \<le> current_index (current s)
              then (if forward (current s)
                    then region_begin (regions (current s) ! nat (current_index (current s)))
                    else region_end (regions (current s) ! nat (current_index (current s))))
              else point s)
             (isearch_forward s)"
proof -
  define p where "p = (if 0 \<le> current_index (current s)
              then (if forward (current s)
                    then region_begin (regions (current s) ! nat (current_index (current s)))
                    else region_end (regions (current s) ! nat (current_index (current s))))
              else point s)"
  have p: "find_point s = Inr p"
    using assms(2) by (auto simp: find_point_def get_point_def Let_def p_def)
  obtain st2 where f: "find_op fa s val =
       Inr (update (push (s\<lparr>heap := st2\<rparr>)
         \<lparr>search = val, regions = fa (buffer s) val (find_flags (regex s) val),
          selected = fresh (heap s),
          current_index = find_closest (fa (buffer s) val (find_flags (regex s) val)) p (isearch_forward s),
          forward = isearch_forward s, try_wrapped = False, wrapped = wrapped (current s)\<rparr>))"
    using find_op_pushes [OF assms(1) p, of fa] by blast
  show ?thesis
    unfolding f p_def [symmetric]
    by (simp add: update_fields push_def)
qed

text \<open>
  The theorem at the sample session after \<open>ab\<close>, searching forward with the active
  match from 3 to 5, when the query changes to \<open>a\<close>: the closest match is computed from
  3, the begin of the active match, and is the match from 3 to 4, of index 1.
\<close>

theorem find_anchor_witness:
  "''a'' \<noteq> []
   \<and> current_index (current demo_ab) < int (length (regions (current demo_ab)))
   \<and> current_index (current demo_ab) = 1 \<and> forward (current demo_ab)
   \<and> regions (current demo_ab) ! 1 = Region 3 5 \<and> region_begin (Region 3 5) = 3
   \<and> isearch_forward demo_ab
   \<and> regions (current (projr (find_op demo_find_all demo_ab ''a'')))
       = [Region 0 1, Region 3 4, Region 6 7]
   \<and> find_closest [Region 0 1, Region 3 4, Region 6 7] 3 True = 1
   \<and> current_index (current (projr (find_op demo_find_all demo_ab ''a''))) = 1"
proof -
  have h1: "''a'' \<noteq> []" by simp
  have h2: "current_index (current demo_ab) < int (length (regions (current demo_ab)))"
    by (simp add: demo_defs2)
  have i: "current_index (current demo_ab) = 1" "forward (current demo_ab)"
    "regions (current demo_ab) ! 1 = Region 3 5" "isearch_forward demo_ab"
    "buffer demo_ab = ''ab ab ab''"
    by (simp_all add: demo_defs2)
  have b: "region_begin (Region 3 5) = 3" by (simp add: region_begin_def)
  have f: "demo_find_all ''ab ab ab'' ''a'' (find_flags (regex demo_ab) ''a'')
      = [Region 0 1, Region 3 4, Region 6 7]"
    by (simp add: demo_find_all_def)
  have c: "find_closest [Region 0 1, Region 3 4, Region 6 7] 3 True = 1"
    by (simp add: find_closest_def region_end_def)
  from find_anchor [OF h1 h2, of demo_find_all]
  obtain s' where "find_op demo_find_all demo_ab ''a'' = Inr s'"
    and "regions (current s') = [Region 0 1, Region 3 4, Region 6 7]"
    and "current_index (current s') = 1"
    using i b f c by auto
  then show ?thesis using h1 h2 i b c by simp
qed

text \<open>
  Claim C5 as stated fails. In the sample session after \<open>ab\<close> the search is forward and
  the active match is the span from 3 to 5. The position \<open>find\<close> computes the closest
  match from is 3, the begin of the match, not its end 5: on changing the query to \<open>a\<close>
  the new active match has index 1, where from 5 the closest match has index 2.
\<close>

theorem find_anchor_is_not_end_forward:
  "current_index (current demo_ab) = 1 \<and> regions (current demo_ab) ! 1 = Region 3 5
   \<and> forward (current demo_ab) \<and> isearch_forward demo_ab
   \<and> region_begin (Region 3 5) = 3 \<and> region_end (Region 3 5) = 5
   \<and> find_point demo_ab = Inr 3
   \<and> regions (current (projr (find_op demo_find_all demo_ab ''a'')))
       = [Region 0 1, Region 3 4, Region 6 7]
   \<and> current_index (current (projr (find_op demo_find_all demo_ab ''a''))) = 1
   \<and> find_closest [Region 0 1, Region 3 4, Region 6 7] 5 True = 2"
  by (simp add: demo_defs2)

text \<open>The range from \<open>A\<close> to \<open>Z\<close> holds the twenty-six upper-case letters.\<close>

lemma in_range_A_Z_iff:
  "in_range_A_Z c \<longleftrightarrow> c \<in> set ''ABCDEFGHIJKLMNOPQRSTUVWXYZ''"
proof
  assume "c \<in> set ''ABCDEFGHIJKLMNOPQRSTUVWXYZ''"
  then show "in_range_A_Z c" by (auto simp: in_range_A_Z_def)
next
  assume a: "in_range_A_Z c"
  define n where "n = (of_char c :: nat)"
  have "65 \<le> n" and "n \<le> 90" using a by (simp_all add: in_range_A_Z_def n_def)
  then have "n \<in> set [65..<91]"
    by (simp only: set_upt atLeastLessThan_iff) simp
  then have "n \<in> of_char ` set ''ABCDEFGHIJKLMNOPQRSTUVWXYZ''"
    by (simp add: upt_rec)
  then show "c \<in> set ''ABCDEFGHIJKLMNOPQRSTUVWXYZ''"
    unfolding n_def by (simp only: inj_image_mem_iff [OF inj_of_char])
qed

text \<open>So the regular expression finds a match exactly in a text with such a letter.\<close>

lemma re_search_A_Z_iff:
  "re_search_A_Z val \<longleftrightarrow> (\<exists>c\<in>set val. c \<in> set ''ABCDEFGHIJKLMNOPQRSTUVWXYZ'')"
  by (simp add: re_search_A_Z_def list_ex_iff in_range_A_Z_iff)

text \<open>
  Claim C9, as the code has it. Whenever \<open>find\<close> with a non-empty query returns, the
  matches of the state it pushes are what the host finds for the query under the flags
  \<open>find_flags\<close>, which depend on nothing but the mode and the query text: \<open>IGNORECASE\<close>
  is absent, so the matching is case-sensitive, if and only if the query contains one
  of the twenty-six letters \<open>A\<close> to \<open>Z\<close>, in literal mode and in regex mode alike, and
  \<open>LITERAL\<close> is set exactly in literal mode. Upper-case letters outside \<open>A\<close> to \<open>Z\<close> do
  not count.
\<close>

theorem find_case_inference:
  assumes "find_op fa s val = Inr s'" and "val \<noteq> []"
  shows "regions (current s') = fa (buffer s) val (find_flags (regex s) val)
       \<and> (IGNORECASE \<notin> find_flags (regex s) val
            \<longleftrightarrow> (\<exists>c\<in>set val. c \<in> set ''ABCDEFGHIJKLMNOPQRSTUVWXYZ''))
       \<and> (LITERAL \<in> find_flags (regex s) val \<longleftrightarrow> \<not> regex s)"
proof -
  obtain p where p: "find_point s = Inr p"
    using find_op_Inr_point [OF assms(1,2)] by blast
  obtain st2 where f: "find_op fa s val =
       Inr (update (push (s\<lparr>heap := st2\<rparr>)
         \<lparr>search = val, regions = fa (buffer s) val (find_flags (regex s) val),
          selected = fresh (heap s),
          current_index = find_closest (fa (buffer s) val (find_flags (regex s) val)) p (isearch_forward s),
          forward = isearch_forward s, try_wrapped = False, wrapped = wrapped (current s)\<rparr>))"
    using find_op_pushes [OF assms(2) p, of fa] by blast
  have "regions (current s') = fa (buffer s) val (find_flags (regex s) val)"
    using assms(1) unfolding f
    by (auto simp: update_fields push_def)
  moreover have "IGNORECASE \<notin> find_flags rx val \<longleftrightarrow> re_search_A_Z val" for rx
    by (simp add: find_flags_def Let_def)
  moreover have "LITERAL \<in> find_flags rx val \<longleftrightarrow> \<not> rx" for rx
    by (simp add: find_flags_def Let_def)
  ultimately show ?thesis by (simp add: re_search_A_Z_iff)
qed


text \<open>
  The theorem at the start of the sample session, a literal search, on typing \<open>a\<close>: the
  query has no upper-case letter and the host is asked to ignore case.
\<close>

theorem find_case_inference_witness:
  "find_op demo_find_all demo_root ''a'' = Inr demo_a \<and> ''a'' \<noteq> []
   \<and> regions (current demo_a)
       = demo_find_all (buffer demo_root) ''a'' (find_flags (regex demo_root) ''a'')
   \<and> IGNORECASE \<in> find_flags (regex demo_root) ''a''
   \<and> LITERAL \<in> find_flags (regex demo_root) ''a''
   \<and> \<not> regex demo_root"
proof -
  have h1: "find_op demo_find_all demo_root ''a'' = Inr demo_a" by (rule demo_a_reached)
  have h2: "''a'' \<noteq> []" by simp
  have r: "\<not> regex demo_root" by (simp add: demo_defs)
  show ?thesis using h1 h2 r find_case_inference [OF h1 h2] by simp
qed


text \<open>
  Claim C9 as stated fails. The query made of the single upper-case letter U+00C9
  contains an upper-case letter, yet \<open>find\<close> asks the host to ignore case, in literal
  mode and in regex mode: the expression \<open>[A-Z]\<close> does not match that letter.
\<close>

theorem find_ignores_case_of_E_acute:
  "upper_case_letter (CHR 0xC9)
   \<and> find_op demo_find_all demo_root [CHR 0xC9] = Inr demo_e_acute
   \<and> regions (current demo_e_acute)
       = demo_find_all (buffer demo_root) [CHR 0xC9] (find_flags (regex demo_root) [CHR 0xC9])
   \<and> find_flags (regex demo_root) [CHR 0xC9] = {LITERAL, IGNORECASE}
   \<and> IGNORECASE \<in> find_flags False [CHR 0xC9]
   \<and> IGNORECASE \<in> find_flags True [CHR 0xC9]"
  by (auto simp: demo_defs demo_e_acute_def upper_case_letter_def)

subsection \<open>Appending from the cursor\<close>

text \<open>\<open>lower\<close> folds the upper-case letters outside \<open>A\<close> to \<open>Z\<close> too.\<close>

lemma lower_E_acute: "lower [CHR 0xC9] = [CHR 0xE9]"
  by (simp add: lower_def upper_case_letter_def char_of_def bit_Suc_0_iff)

text \<open>
  With no echo pending, a non-empty text and the index of the current state below the
  number of its matches, \<open>on_change\<close> returns and pushes a state for the text.
\<close>

lemma on_change_returns:
  assumes "in_changes s = 0" and "val \<noteq> []"
    and "current_index (current s) < int (length (regions (current s)))"
  obtains s' where "on_change fa s val = Inr s'" and "search (current s') = val"
    and "in_changes s' = 0" and "buffer s' = buffer s" and "regex s' = regex s"
    and "current_index (current s') < int (length (regions (current s')))"
proof -
  define p where "p = (if 0 \<le> current_index (current s)
              then (if forward (current s)
                    then region_begin (regions (current s) ! nat (current_index (current s)))
                    else region_end (regions (current s) ! nat (current_index (current s))))
              else point s)"
  have p: "find_point s = Inr p"
    using assms(3) by (auto simp: find_point_def get_point_def Let_def p_def)
  obtain st2 where f: "find_op fa s val =
       Inr (update (push (s\<lparr>heap := st2\<rparr>)
         \<lparr>search = val, regions = fa (buffer s) val (find_flags (regex s) val),
          selected = fresh (heap s),
          current_index = find_closest (fa (buffer s) val (find_flags (regex s) val)) p (isearch_forward s),
          forward = isearch_forward s, try_wrapped = False, wrapped = wrapped (current s)\<rparr>))"
    using find_op_pushes [OF assms(2) p, of fa] by blast
  have r: "find_closest (fa (buffer s) val (find_flags (regex s) val)) p (isearch_forward s)
      < int (length (fa (buffer s) val (find_flags (regex s) val)))"
    using find_closest_range by simp
  define s' where "s' = update (push (s\<lparr>heap := st2\<rparr>)
         \<lparr>search = val, regions = fa (buffer s) val (find_flags (regex s) val),
          selected = fresh (heap s),
          current_index = find_closest (fa (buffer s) val (find_flags (regex s) val)) p (isearch_forward s),
          forward = isearch_forward s, try_wrapped = False, wrapped = wrapped (current s)\<rparr>)"
  show ?thesis
    by (rule that [of s'])
       (use assms(1) r in \<open>simp_all add: on_change_def f s'_def update_fields push_def\<close>)
qed

text \<open>The session just started on the text \<open>FOO\<close>.\<close>

lemma demo_foo_fields:
  "in_changes demo_foo = 0 \<and> buffer demo_foo = ''FOO'' \<and> \<not> regex demo_foo
   \<and> search (current demo_foo) = [] \<and> point demo_foo = 0
   \<and> cells (heap demo_foo) (selected (current demo_foo)) = []
   \<and> current_index (current demo_foo) < int (length (regions (current demo_foo)))"
  by (simp add: demo_foo_def start_def ISearchInfo_init_def StackItem_init_def new_list_def
      update_def not_in_error_def Let_def)

text \<open>One round of the loop, and its end.\<close>

lemma append_loop_step:
  assumes "p < limit" and "is_word_char (buffer s) p True seps"
    and "q1 = q @ append_one (regex s) (if \<not> cs then lower (substr (buffer s) p) else substr (buffer s) p)"
    and "on_change fa s q1 = Inr s'"
  shows "append_loop fa seps cs limit s q p = append_loop fa seps cs limit s' q1 (p + 1)"
proof -
  define ch where "ch = (if \<not> cs then lower (substr (buffer s) p) else substr (buffer s) p)"
  have "append_loop fa seps cs limit s q p =
      (case on_change fa s (q @ append_one (regex s) ch) of Inl e \<Rightarrow> Inl e
       | Inr self1 \<Rightarrow> append_loop fa seps cs limit self1 (q @ append_one (regex s) ch) (p + 1))"
    unfolding ch_def by (subst append_loop.simps) (simp only: assms(1,2) Let_def simp_thms if_True)
  then show ?thesis using assms(4) unfolding assms(3) ch_def by simp
qed

lemma append_loop_stop:
  "\<not> p < limit \<Longrightarrow> append_loop fa seps cs limit s q p = Inr s"
  by (subst append_loop.simps) simp

text \<open>
  Claim C10 fails on the code. In a view with the text \<open>FOO\<close>, the cursor at offset 0
  and an empty query, which has no upper-case letter, \<open>append_from_cursor\<close> returns with
  the query \<open>Foo\<close>, whatever the host finds: the loop folds the second and third
  character to lower case, but the first character is appended as it stands in the
  buffer.
\<close>

theorem append_from_cursor_keeps_upper_case:
  "\<exists>s. append_from_cursor find_all demo_separators demo_foo = Inr s
      \<and> search (current s) = ''Foo'' \<and> input_text s = ''Foo''"
proof -
  note d = demo_foo_fields
  obtain s1 where s1: "on_change find_all demo_foo ''F'' = Inr s1" "search (current s1) = ''F''"
    "in_changes s1 = 0" "buffer s1 = ''FOO''" "\<not> regex s1"
    "current_index (current s1) < int (length (regions (current s1)))"
    using on_change_returns [of demo_foo "''F''" find_all] d by auto
  obtain s2 where s2: "on_change find_all s1 ''Fo'' = Inr s2" "search (current s2) = ''Fo''"
    "in_changes s2 = 0" "buffer s2 = ''FOO''" "\<not> regex s2"
    "current_index (current s2) < int (length (regions (current s2)))"
    using on_change_returns [of s1 "''Fo''" find_all] s1 by auto
  obtain s3 where s3: "on_change find_all s2 ''Foo'' = Inr s3" "search (current s3) = ''Foo''"
    "in_changes s3 = 0" "buffer s3 = ''FOO''" "\<not> regex s3"
    using on_change_returns [of s2 "''Foo''" find_all] s2 by auto
  have w: "is_word_char ''FOO'' 1 True demo_separators" "is_word_char ''FOO'' 2 True demo_separators"
    by (simp_all add: is_word_char_def substr_def demo_separators_def)
  have l: "lower ''O'' = ''o''"
    by (simp add: lower_def upper_case_letter_def char_of_def bit_Suc_0_iff)
  have l3: "append_loop find_all demo_separators False 3 s3 ''Foo'' 3 = Inr s3"
    by (rule append_loop_stop) simp
  have l2: "append_loop find_all demo_separators False 3 s2 ''Fo'' 2 = Inr s3"
    using append_loop_step [of 2 3 s2 demo_separators "''Foo''" "''Fo''" False find_all s3] l3
    by (simp add: s2 s3 w l substr_def append_one_def)
  have l1: "append_loop find_all demo_separators False 3 s1 ''F'' 1 = Inr s3"
    using append_loop_step [of 1 3 s1 demo_separators "''Fo''" "''F''" False find_all s2] l2
    by (simp add: s1 s2 w l substr_def append_one_def)
  have "append_from_cursor find_all demo_separators demo_foo = Inr (set_text s3 ''Foo'' True)"
    using d by (simp add: append_from_cursor_def Let_def re_search_A_Z_def substr_def append_one_def s1 l1 s3
        del: append_loop.simps)
  then show ?thesis by (simp add: set_text_def Let_def s3)
qed


end
